theory Spec2Isabelle
  imports Main
begin

section \<open>sshforward: the data model of main.go\<close>

text \<open>
  The configuration structs of main.go (lines 18-35). The field \<open>Name\<close> of
  \<open>Host\<close> is written \<open>HostName\<close>, since \<open>Endpoint\<close> has a field \<open>Name\<close> too.
\<close>

record Endpoint =
  Name :: string
  LocalAddr :: string
  RemoteAddr :: string

record Host =
  Address :: string
  Endpoints :: "Endpoint list"
  HostName :: string

record Config =
  Environment :: string
  Hosts :: "Host list"

text \<open>
  Handles of the Go runtime. A \<open>net.Conn\<close> (an accepted local connection or a
  channel opened over a session) is identified by a number, an \<open>*ssh.Client\<close> by
  the ordinal of the \<open>ssh.Dial\<close> call that returned it.
\<close>

datatype conn = Conn nat

datatype client = Client nat

text \<open>Go's \<open>error\<close> values; \<open>nil\<close> is \<open>None\<close> of \<open>error option\<close>.\<close>

datatype error = EOF | Err string

text \<open>
  \<open>http.ListenAndServe\<close> binds a TCP listener at its address and serves on it:
  it returns at once when the bind fails, it returns later when serving fails,
  or it never returns.
\<close>

datatype http_result = HttpBindError | HttpServeError | HttpServesForever

text \<open>
  Every call the program makes to its collaborators (flag, os, json, net, ssh,
  http, log, io) is an event of a trace, with the result the collaborator gave.
  \<open>LogPrintf\<close> carries the format string of the source.
\<close>

datatype event =
    FlagUsage
  | OsOpen string bool
  | JsonDecode bool
  | OsGetenv string
  | NetDialUnix string bool
  | LogPrintf string
  | SshDial string string bool
  | GoForwardEndpoint client Endpoint
  | HttpListenAndServe string http_result
  | NetListen string bool
  | ListenerAccept "conn option"
  | ClientDial client string "conn option"
  | GoHandleClient conn conn
  | IoCopy conn conn
  | ConnClose conn

section \<open>The relay: handleClient (lines 127-152)\<close>

text \<open>
  What \<open>io.Copy\<close> does is the environment's choice: it blocks for ever, or it
  returns with an error value (\<open>nil\<close> at end of stream).
\<close>

datatype copy_result = CopyBlocks | CopyReturns "error option"

text \<open>
  The closure \<open>close\<close> (lines 128-133): it calls \<open>forward.Close()\<close> and then
  \<open>remote.Close()\<close>, with no test before either call, and drops both results.
\<close>

definition close :: "conn \<Rightarrow> conn \<Rightarrow> event list" where
  "close forward remote = [ConnClose forward, ConnClose remote]"

text \<open>
  The first goroutine (lines 136-142), remote to local: \<open>io.Copy(f, r)\<close>, a log
  line when the error is neither \<open>nil\<close> nor \<open>io.EOF\<close>, and the deferred \<open>close()\<close>
  once the copy has returned.
\<close>

definition copy_remote_local :: "conn \<Rightarrow> conn \<Rightarrow> copy_result \<Rightarrow> event list" where
  "copy_remote_local forward remote res =
     IoCopy forward remote #
     (case res of
        CopyBlocks \<Rightarrow> []
      | CopyReturns err \<Rightarrow>
          (if err \<noteq> None \<and> err \<noteq> Some EOF
           then [LogPrintf ''copy <remote->local> error: %v\<newline>''] else [])
          @ close forward remote)"

text \<open>The second goroutine (lines 145-151), local to remote: \<open>io.Copy(r, f)\<close>.\<close>

definition copy_local_remote :: "conn \<Rightarrow> conn \<Rightarrow> copy_result \<Rightarrow> event list" where
  "copy_local_remote forward remote res =
     IoCopy remote forward #
     (case res of
        CopyBlocks \<Rightarrow> []
      | CopyReturns err \<Rightarrow>
          (if err \<noteq> None \<and> err \<noteq> Some EOF
           then [LogPrintf ''copy <local->remote> error: %v\<newline>''] else [])
          @ close forward remote)"

text \<open>
  \<open>handleClient\<close> starts the two goroutines and returns: its result is the pair
  of their traces. The relay's runs are the interleavings of the two, each
  event with the goroutine that made it.
\<close>

definition handleClient :: "conn \<Rightarrow> conn \<Rightarrow> copy_result \<times> copy_result \<Rightarrow> event list \<times> event list" where
  "handleClient forward remote res =
     (copy_remote_local forward remote (fst res), copy_local_remote forward remote (snd res))"

datatype task = RemoteToLocal | LocalToRemote

definition relay_runs :: "conn \<Rightarrow> conn \<Rightarrow> copy_result \<times> copy_result \<Rightarrow> (task \<times> event) list set" where
  "relay_runs forward remote res =
     (case handleClient forward remote res of
        (t1, t2) \<Rightarrow> shuffles (map (Pair RemoteToLocal) t1) (map (Pair LocalToRemote) t2))"

text \<open>
  The connections' state is the set of those that are closed. \<open>Close\<close> of a
  \<open>net.Conn\<close> closes an open connection and returns \<open>nil\<close>; on a closed one it
  returns an error and leaves it closed (the behaviour of Go's net package,
  which is not code of this repository).
\<close>

definition Conn_Close :: "conn \<Rightarrow> conn set \<Rightarrow> error option \<times> conn set" where
  "Conn_Close c closed =
     (if c \<in> closed then (Some (Err ''use of closed network connection''), closed)
      else (None, insert c closed))"

fun exec_event :: "event \<Rightarrow> conn set \<Rightarrow> conn set" where
  "exec_event (ConnClose c) closed = snd (Conn_Close c closed)"
| "exec_event _ closed = closed"

fun exec :: "event list \<Rightarrow> conn set \<Rightarrow> conn set" where
  "exec [] closed = closed"
| "exec (e # es) closed = exec es (exec_event e closed)"

section \<open>The tunnel: forwardEndpoint (lines 100-125)\<close>

text \<open>
  The environment of one tunnel: whether \<open>net.Listen\<close> succeeds, and what each
  turn of the accept loop meets: \<open>local.Accept()\<close> fails, or it returns a
  connection, for which \<open>client.Dial\<close> then returns a channel or fails
  (\<open>None\<close>). When the list is used up, the tunnel waits in \<open>Accept\<close>.
\<close>

datatype iteration = AcceptFails | Accepted conn "conn option"

record tunnel_env =
  listen_ok :: bool
  iterations :: "iteration list"

text \<open>
  Where the goroutine is at the end of its trace: returned at line 106, returned
  at line 114, or waiting in \<open>local.Accept()\<close> at line 111.
\<close>

datatype tunnel_status = BindFailed | AcceptFailed | InAccept

text \<open>The \<open>for\<close> loop of lines 110-124.\<close>

fun accept_loop :: "client \<Rightarrow> Endpoint \<Rightarrow> iteration list \<Rightarrow> event list \<times> tunnel_status" where
  "accept_loop client endpoint [] = ([], InAccept)"
| "accept_loop client endpoint (AcceptFails # rest) =
     ([ListenerAccept None, LogPrintf ''local accept error: %v''], AcceptFailed)"
| "accept_loop client endpoint (Accepted forward None # rest) =
     (case accept_loop client endpoint rest of
        (tr, st) \<Rightarrow>
          ([ListenerAccept (Some forward),
            ClientDial client (RemoteAddr endpoint) None,
            LogPrintf ''remote dial error: %v''] @ tr, st))"
| "accept_loop client endpoint (Accepted forward (Some remote) # rest) =
     (case accept_loop client endpoint rest of
        (tr, st) \<Rightarrow>
          ([ListenerAccept (Some forward),
            ClientDial client (RemoteAddr endpoint) (Some remote),
            GoHandleClient forward remote] @ tr, st))"

definition forwardEndpoint :: "client \<Rightarrow> Endpoint \<Rightarrow> tunnel_env \<Rightarrow> event list \<times> tunnel_status" where
  "forwardEndpoint client endpoint env =
     (let start = [LogPrintf ''Forwarding %v from <%v> to <%v>'',
                   NetListen (LocalAddr endpoint) (listen_ok env)]
      in if \<not> listen_ok env
         then (start @ [LogPrintf ''forwarding port bind error: %v\<newline>''], BindFailed)
         else (case accept_loop client endpoint (iterations env) of
                 (tr, st) \<Rightarrow> (start @ tr, st)))"

text \<open>
  The relays a tunnel has started, from its trace, and the events of the tunnel
  together with those of the two goroutines of each of its relays (\<open>res i\<close> is
  what the copies of the \<open>i\<close>-th relay meet).
\<close>

fun relays :: "event list \<Rightarrow> (conn \<times> conn) list" where
  "relays [] = []"
| "relays (GoHandleClient forward remote # es) = (forward, remote) # relays es"
| "relays (_ # es) = relays es"

definition relay_events :: "(nat \<Rightarrow> copy_result \<times> copy_result) \<Rightarrow> nat \<times> conn \<times> conn \<Rightarrow> event list" where
  "relay_events res p =
     (case p of (i, forward, remote) \<Rightarrow>
        (case handleClient forward remote (res i) of (t1, t2) \<Rightarrow> t1 @ t2))"

definition tunnel_and_relays ::
  "client \<Rightarrow> Endpoint \<Rightarrow> tunnel_env \<Rightarrow> (nat \<Rightarrow> copy_result \<times> copy_result) \<Rightarrow> event list" where
  "tunnel_and_relays client endpoint env res =
     (let tr = fst (forwardEndpoint client endpoint env)
      in tr @ concat (map (relay_events res) (enumerate 0 (relays tr))))"

text \<open>The connections a list of loop turns hands to relays.\<close>

fun relayed :: "iteration list \<Rightarrow> conn list" where
  "relayed [] = []"
| "relayed (Accepted forward (Some remote) # rest) = forward # remote # relayed rest"
| "relayed (_ # rest) = relayed rest"

text \<open>
  The connections an event refers to, and the connections a list of loop turns
  brings into the loop.
\<close>

fun conns_of :: "event \<Rightarrow> conn list" where
  "conns_of (ListenerAccept (Some c)) = [c]"
| "conns_of (ClientDial client addr (Some c)) = [c]"
| "conns_of (GoHandleClient forward remote) = [forward, remote]"
| "conns_of (IoCopy dst src) = [dst, src]"
| "conns_of (ConnClose c) = [c]"
| "conns_of _ = []"

fun offered :: "iteration list \<Rightarrow> conn list" where
  "offered [] = []"
| "offered (AcceptFails # rest) = offered rest"
| "offered (Accepted forward None # rest) = forward # offered rest"
| "offered (Accepted forward (Some remote) # rest) = forward # remote # offered rest"

subsection \<open>The tunnel's state machine, as the specification words it\<close>

text \<open>
  \<open>Unbound -> Listening -> Accepting (loop) -> Stopped\<close>: a bind error takes
  \<open>Unbound\<close> to \<open>Stopped\<close>, an accept error takes \<open>Accepting\<close> to \<open>Stopped\<close>,
  and nothing leaves \<open>Stopped\<close>. This is the specification's machine, to be
  compared with \<open>forwardEndpoint\<close>.
\<close>

datatype tunnel_state = Unbound | Listening | Accepting | Stopped

datatype tunnel_input = Bind bool | EnterLoop | AcceptResult bool

fun spec_tunnel_step :: "tunnel_state \<Rightarrow> tunnel_input \<Rightarrow> tunnel_state" where
  "spec_tunnel_step Unbound (Bind ok) = (if ok then Listening else Stopped)"
| "spec_tunnel_step Listening EnterLoop = Accepting"
| "spec_tunnel_step Accepting (AcceptResult ok) = (if ok then Accepting else Stopped)"
| "spec_tunnel_step s _ = s"

fun spec_tunnel_run :: "tunnel_state \<Rightarrow> tunnel_input list \<Rightarrow> tunnel_state list" where
  "spec_tunnel_run s [] = [s]"
| "spec_tunnel_run s (i # is) = s # spec_tunnel_run (spec_tunnel_step s i) is"

text \<open>What a tunnel's environment feeds the machine, and the state a status stands for.\<close>

fun accept_input :: "iteration \<Rightarrow> tunnel_input" where
  "accept_input AcceptFails = AcceptResult False"
| "accept_input (Accepted forward remote) = AcceptResult True"

definition tunnel_inputs :: "tunnel_env \<Rightarrow> tunnel_input list" where
  "tunnel_inputs env = Bind (listen_ok env) # EnterLoop # map accept_input (iterations env)"

fun state_of :: "tunnel_status \<Rightarrow> tunnel_state" where
  "state_of BindFailed = Stopped"
| "state_of AcceptFailed = Stopped"
| "state_of InAccept = Accepting"

section \<open>The orchestrator: main (lines 37-97)\<close>

text \<open>
  The environment of \<open>main\<close>: whether \<open>os.Open\<close> of a path succeeds, what the
  JSON decoder makes of that file (\<open>None\<close>: an error), the environment variables,
  whether the unix socket at a path can be dialled, whether the \<open>n\<close>-th
  \<open>ssh.Dial\<close> (to an address, as a user) succeeds, and what
  \<open>http.ListenAndServe\<close> does.
\<close>

record world =
  os_Open :: "string \<Rightarrow> bool"
  json_Decode :: "string \<Rightarrow> Config option"
  os_Getenv :: "string \<Rightarrow> string"
  net_Dial_unix :: "string \<Rightarrow> bool"
  ssh_Dial :: "nat \<Rightarrow> string \<Rightarrow> string \<Rightarrow> bool"
  http_ListenAndServe :: "string \<Rightarrow> http_result"

text \<open>
  How \<open>main\<close> ends: it returns (line 47), it calls \<open>log.Fatalf\<close> or \<open>log.Fatal\<close>
  (which exit the process with status 1, without running deferred calls), or it
  stays in \<open>http.ListenAndServe\<close> for ever.
\<close>

datatype exit = Returned | Fatalf string | Fatal | Serving

text \<open>
  The loop over the hosts (lines 83-94); \<open>n\<close> counts the hosts done. The result
  is \<open>False\<close> when \<open>log.Fatal(err)\<close> of line 87 was reached. The deferred
  \<open>client.Close()\<close> of line 89 never runs, since \<open>main\<close> does not return after the
  loop.
\<close>

fun connect_hosts :: "world \<Rightarrow> string \<Rightarrow> nat \<Rightarrow> Host list \<Rightarrow> event list \<times> bool" where
  "connect_hosts w username n [] = ([], True)"
| "connect_hosts w username n (host # hosts) =
     (let ok = ssh_Dial w n (Address host) username;
          start = [LogPrintf ''Connecting to %v <%v>\<newline>'', SshDial (Address host) username ok]
      in if \<not> ok then (start, False)
         else (case connect_hosts w username (Suc n) hosts of
                 (tr, done) \<Rightarrow>
                   (start @ map (GoForwardEndpoint (Client n)) (Endpoints host) @ tr, done)))"

text \<open>
  \<open>main\<close>, from line 45 on: \<open>filename\<close> and \<open>username\<close> are the values of the flags
  \<open>-f\<close> and \<open>-u\<close> after \<open>flag.Parse()\<close>, empty when the flag is not given.
\<close>

definition main :: "string \<Rightarrow> string \<Rightarrow> world \<Rightarrow> event list \<times> exit" where
  "main filename username w =
     (if filename = [] \<or> username = [] then ([FlagUsage], Returned)
      else if \<not> os_Open w filename
      then ([OsOpen filename False], Fatalf ''Failed to open config: %v'')
      else (case json_Decode w filename of
              None \<Rightarrow>
                ([OsOpen filename True, JsonDecode False], Fatalf ''Failed to unmarshal config: %v'')
            | Some envConfig \<Rightarrow>
                (let socket = os_Getenv w ''SSH_AUTH_SOCK'';
                     agent = net_Dial_unix w socket;
                     start = [OsOpen filename True, JsonDecode True,
                              OsGetenv ''SSH_AUTH_SOCK'', NetDialUnix socket agent]
                 in if \<not> agent then (start, Fatalf ''Failed to open SSH_AUTH_SOCK: %v'')
                    else (case connect_hosts w username 0 (Hosts envConfig) of
                            (tr, done) \<Rightarrow>
                              (let tr' = start @ [LogPrintf ''Initiating tunnels for %s\<newline>''] @ tr
                               in if \<not> done then (tr', Fatal)
                                  else (let served = http_ListenAndServe w '':0''
                                        in (tr' @ [HttpListenAndServe '':0'' served],
                                            if served = HttpServesForever then Serving else Fatal)))))))"

section \<open>The process: main and the goroutines it starts\<close>

text \<open>
  The tunnels \<open>main\<close> has started, from its trace, each run in its own
  environment (\<open>envs i\<close> for the \<open>i\<close>-th \<open>go forwardEndpoint\<close>). A goroutine lives
  no longer than the process: what really runs of a tunnel is a prefix of its
  trace here.
\<close>

fun spawned :: "event list \<Rightarrow> (client \<times> Endpoint) list" where
  "spawned [] = []"
| "spawned (GoForwardEndpoint client endpoint # es) = (client, endpoint) # spawned es"
| "spawned (_ # es) = spawned es"

definition run_tunnel :: "(nat \<Rightarrow> tunnel_env) \<Rightarrow> nat \<times> client \<times> Endpoint \<Rightarrow> event list \<times> tunnel_status" where
  "run_tunnel envs p = (case p of (i, client, endpoint) \<Rightarrow> forwardEndpoint client endpoint (envs i))"

definition tunnels :: "(nat \<Rightarrow> tunnel_env) \<Rightarrow> event list \<Rightarrow> (event list \<times> tunnel_status) list" where
  "tunnels envs tr = map (run_tunnel envs) (enumerate 0 (spawned tr))"

definition process ::
  "string \<Rightarrow> string \<Rightarrow> world \<Rightarrow> (nat \<Rightarrow> tunnel_env) \<Rightarrow>
     (event list \<times> exit) \<times> (event list \<times> tunnel_status) list" where
  "process filename username w envs =
     (let m = main filename username w in (m, tunnels envs (fst m)))"

text \<open>
  The addresses at which a trace asks for a TCP listening socket, and those at
  which it got one: \<open>net.Listen\<close> and \<open>http.ListenAndServe\<close> both bind.
\<close>

fun listen_calls :: "event list \<Rightarrow> string list" where
  "listen_calls [] = []"
| "listen_calls (NetListen addr ok # es) = addr # listen_calls es"
| "listen_calls (HttpListenAndServe addr served # es) = addr # listen_calls es"
| "listen_calls (_ # es) = listen_calls es"

fun bound :: "event list \<Rightarrow> string list" where
  "bound [] = []"
| "bound (NetListen addr ok # es) = (if ok then addr # bound es else bound es)"
| "bound (HttpListenAndServe addr served # es) =
     (if served \<noteq> HttpBindError then addr # bound es else bound es)"
| "bound (_ # es) = bound es"

text \<open>
  The events of a process, those of its tunnels before those of \<open>main\<close>: one
  arrangement of them (the goroutines run concurrently), used where the order
  between goroutines does not matter.
\<close>

definition process_events :: "(event list \<times> exit) \<times> (event list \<times> tunnel_status) list \<Rightarrow> event list" where
  "process_events p = concat (map fst (snd p)) @ fst (fst p)"

text \<open>The addresses of the \<open>ssh.Dial\<close> calls of a trace, in the order they were made.\<close>

fun ssh_dials :: "event list \<Rightarrow> string list" where
  "ssh_dials [] = []"
| "ssh_dials (SshDial addr user ok # es) = addr # ssh_dials es"
| "ssh_dials (_ # es) = ssh_dials es"

section \<open>Concrete inputs\<close>

text \<open>
  A configuration of three hosts, the first with two endpoints (one of them
  local \<open>127.0.0.1:9001\<close>, remote \<open>10.0.0.5:22\<close>), and a world in which every
  call succeeds and \<open>http.ListenAndServe\<close> serves for ever.
\<close>

definition example_endpoint :: Endpoint where
  "example_endpoint = \<lparr>Name = ''ssh'', LocalAddr = ''127.0.0.1:9001'', RemoteAddr = ''10.0.0.5:22''\<rparr>"

definition example_endpoint2 :: Endpoint where
  "example_endpoint2 = \<lparr>Name = ''web'', LocalAddr = ''127.0.0.1:9002'', RemoteAddr = ''10.0.0.6:80''\<rparr>"

definition example_config :: Config where
  "example_config =
     \<lparr>Environment = ''staging'',
      Hosts = [\<lparr>Address = ''bastion:22'', Endpoints = [example_endpoint, example_endpoint2],
                 HostName = ''bastion''\<rparr>,
               \<lparr>Address = ''db:22'', Endpoints = [], HostName = ''db''\<rparr>,
               \<lparr>Address = ''cache:22'', Endpoints = [], HostName = ''cache''\<rparr>]\<rparr>"

definition example_world :: world where
  "example_world =
     \<lparr>os_Open = (\<lambda>path. True),
      json_Decode = (\<lambda>path. Some example_config),
      os_Getenv = (\<lambda>name. ''/tmp/agent.sock''),
      net_Dial_unix = (\<lambda>path. True),
      ssh_Dial = (\<lambda>n addr user. True),
      http_ListenAndServe = (\<lambda>addr. HttpServesForever)\<rparr>"

text \<open>
  A tunnel whose first accepted connection meets a failing \<open>client.Dial\<close> and
  whose second is relayed.
\<close>

definition example_env :: tunnel_env where
  "example_env =
     \<lparr>listen_ok = True,
      iterations = [Accepted (Conn 0) None, Accepted (Conn 1) (Some (Conn 2))]\<rparr>"

text \<open>
  A run of the relay of \<open>Conn 1\<close> and \<open>Conn 2\<close>: the copy from the channel ends
  first and its goroutine closes both; the other copy then returns with an
  error, and its goroutine logs and closes both again.
\<close>

definition example_relay_run :: "(task \<times> event) list" where
  "example_relay_run =
     [(RemoteToLocal, IoCopy (Conn 1) (Conn 2)),
      (LocalToRemote, IoCopy (Conn 2) (Conn 1)),
      (RemoteToLocal, ConnClose (Conn 1)),
      (RemoteToLocal, ConnClose (Conn 2)),
      (LocalToRemote, LogPrintf ''copy <local->remote> error: %v\<newline>''),
      (LocalToRemote, ConnClose (Conn 1)),
      (LocalToRemote, ConnClose (Conn 2))]"

section \<open>Properties of the relay\<close>

lemma exec_eq: "exec es closed = closed \<union> {c. ConnClose c \<in> set es}"
proof (induction es arbitrary: closed)
  case Nil
  then show ?case by simp
next
  case (Cons e es)
  then show ?case by (cases e) (auto simp: Conn_Close_def)
qed

lemma exec_no_close: "\<forall>c. ConnClose c \<notin> set es \<Longrightarrow> exec es closed = closed"
  by (simp add: exec_eq)

lemma exec_close: "exec (close forward remote) closed = insert forward (insert remote closed)"
  by (auto simp: close_def Conn_Close_def)

lemma closes_remote_local:
  "res \<noteq> CopyBlocks \<Longrightarrow>
     ConnClose forward \<in> set (copy_remote_local forward remote res) \<and>
     ConnClose remote \<in> set (copy_remote_local forward remote res)"
  by (cases res) (simp_all add: copy_remote_local_def close_def)

lemma closes_local_remote:
  "res \<noteq> CopyBlocks \<Longrightarrow>
     ConnClose forward \<in> set (copy_local_remote forward remote res) \<and>
     ConnClose remote \<in> set (copy_local_remote forward remote res)"
  by (cases res) (simp_all add: copy_local_remote_def close_def)

lemma set_relay_run:
  "zs \<in> relay_runs forward remote res \<Longrightarrow>
     set zs = Pair RemoteToLocal ` set (copy_remote_local forward remote (fst res))
      \<union> Pair LocalToRemote ` set (copy_local_remote forward remote (snd res))"
  unfolding relay_runs_def handleClient_def by (simp add: set_shuffles)

lemma closed_after: "e \<in> set zs \<Longrightarrow> snd e = ConnClose c \<Longrightarrow> c \<in> exec (map snd zs) closed"
  by (force simp: exec_eq)

lemma count_list_map_shuffles:
  "zs \<in> shuffles xs ys \<Longrightarrow>
     count_list (map f zs) x = count_list (map f xs) x + count_list (map f ys) x"
  by (induction xs ys arbitrary: zs rule: shuffles.induct) auto

lemma example_run:
  "example_relay_run \<in>
     relay_runs (Conn 1) (Conn 2) (CopyReturns None, CopyReturns (Some (Err ''closed'')))"
  by (simp add: example_relay_run_def relay_runs_def handleClient_def copy_remote_local_def
        copy_local_remote_def close_def)

text \<open>
  C2. In every run of a relay, a goroutine whose copy has returned (at end of
  stream or with an error) calls \<open>Close\<close> on both the local connection and the
  channel; so once either copy has ended, both connections are closed at the
  end of the run, whatever the other goroutine does.
\<close>

theorem relay_closes_both:
  assumes "zs \<in> relay_runs forward remote res"
  shows "(fst res \<noteq> CopyBlocks \<longrightarrow>
            (RemoteToLocal, ConnClose forward) \<in> set zs \<and> (RemoteToLocal, ConnClose remote) \<in> set zs)
       \<and> (snd res \<noteq> CopyBlocks \<longrightarrow>
            (LocalToRemote, ConnClose forward) \<in> set zs \<and> (LocalToRemote, ConnClose remote) \<in> set zs)
       \<and> (fst res \<noteq> CopyBlocks \<or> snd res \<noteq> CopyBlocks \<longrightarrow>
            forward \<in> exec (map snd zs) closed \<and> remote \<in> exec (map snd zs) closed)"
proof -
  note s = set_relay_run [OF assms]
  have a: "(RemoteToLocal, ConnClose forward) \<in> set zs \<and> (RemoteToLocal, ConnClose remote) \<in> set zs"
    if "fst res \<noteq> CopyBlocks"
    using closes_remote_local [OF that, of forward remote] by (simp add: s image_iff)
  have b: "(LocalToRemote, ConnClose forward) \<in> set zs \<and> (LocalToRemote, ConnClose remote) \<in> set zs"
    if "snd res \<noteq> CopyBlocks"
    using closes_local_remote [OF that, of forward remote] by (simp add: s image_iff)
  have c: "forward \<in> exec (map snd zs) closed \<and> remote \<in> exec (map snd zs) closed"
    if "fst res \<noteq> CopyBlocks \<or> snd res \<noteq> CopyBlocks"
    using that a b closed_after [of _ zs] by (metis snd_conv)
  show ?thesis using a b c by blast
qed

theorem relay_closes_both_witness:
  "example_relay_run \<in> relay_runs (Conn 1) (Conn 2) (CopyReturns None, CopyReturns (Some (Err ''closed'')))
   \<and> CopyReturns None \<noteq> CopyBlocks
   \<and> (RemoteToLocal, ConnClose (Conn 1)) \<in> set example_relay_run
   \<and> (RemoteToLocal, ConnClose (Conn 2)) \<in> set example_relay_run
   \<and> (LocalToRemote, ConnClose (Conn 1)) \<in> set example_relay_run
   \<and> (LocalToRemote, ConnClose (Conn 2)) \<in> set example_relay_run
   \<and> Conn 1 \<in> exec (map snd example_relay_run) {}
   \<and> Conn 2 \<in> exec (map snd example_relay_run) {}"
  using example_run
    relay_closes_both [of example_relay_run "Conn 1" "Conn 2"
      "(CopyReturns None, CopyReturns (Some (Err ''closed'')))" "{}"]
  by simp

text \<open>
  C1, as the claim words it, fails: nothing guards \<open>close\<close>. In the run
  \<open>example_relay_run\<close> both goroutines finish, \<open>Close\<close> is called twice on each
  connection, and the second call on the local connection finds it closed: the
  \<open>Close\<close> of the connection returns an error there, which \<open>close\<close> drops.
\<close>

theorem close_once_counterexample:
  "example_relay_run \<in> relay_runs (Conn 1) (Conn 2) (CopyReturns None, CopyReturns (Some (Err ''closed'')))
   \<and> count_list (map snd example_relay_run) (ConnClose (Conn 1)) = 2
   \<and> count_list (map snd example_relay_run) (ConnClose (Conn 2)) = 2
   \<and> exec (map snd (take 5 example_relay_run)) {} = {Conn 1, Conn 2}
   \<and> example_relay_run ! 5 = (LocalToRemote, ConnClose (Conn 1))
   \<and> fst (Conn_Close (Conn 1) {Conn 1, Conn 2}) = Some (Err ''use of closed network connection'')"
  using example_run by (auto simp: example_relay_run_def Conn_Close_def)

text \<open>
  C1, amended. Each call of \<open>close\<close> calls \<open>Close\<close> on the local connection and
  on the channel, with no guard, and drops the results. When both copies of a
  relay return, each connection's \<open>Close\<close> is called twice (four times when the
  two are one connection). A second \<open>close\<close> changes no state: both connections
  stay closed, the \<open>Close\<close> of each returning an error that is dropped.
\<close>

theorem close_unguarded_idempotent:
  "exec (close forward remote @ close forward remote) closed = exec (close forward remote) closed
   \<and> exec (close forward remote) closed = insert forward (insert remote closed)
   \<and> fst (Conn_Close forward (exec (close forward remote) closed)) \<noteq> None
   \<and> fst (Conn_Close remote (exec (close forward remote) closed)) \<noteq> None
   \<and> (zs \<in> relay_runs forward remote (CopyReturns e1, CopyReturns e2) \<longrightarrow>
        count_list (map snd zs) (ConnClose forward) = (if forward = remote then 4 else 2)
        \<and> count_list (map snd zs) (ConnClose remote) = (if forward = remote then 4 else 2)
        \<and> exec (map snd zs) closed = insert forward (insert remote closed))"
proof -
  have run: "count_list (map snd zs) (ConnClose forward) = (if forward = remote then 4 else 2)
        \<and> count_list (map snd zs) (ConnClose remote) = (if forward = remote then 4 else 2)
        \<and> exec (map snd zs) closed = insert forward (insert remote closed)"
    if "zs \<in> relay_runs forward remote (CopyReturns e1, CopyReturns e2)"
  proof -
    from that have z: "zs \<in> shuffles
        (map (Pair RemoteToLocal) (copy_remote_local forward remote (CopyReturns e1)))
        (map (Pair LocalToRemote) (copy_local_remote forward remote (CopyReturns e2)))"
      by (simp add: relay_runs_def handleClient_def)
    have s: "set (map snd zs) =
        set (copy_remote_local forward remote (CopyReturns e1)) \<union>
        set (copy_local_remote forward remote (CopyReturns e2))"
      using set_shuffles [OF z] by (simp add: image_Un image_image)
    have "{c. ConnClose c \<in> set (map snd zs)} = {forward, remote}"
      unfolding s by (auto simp: copy_remote_local_def copy_local_remote_def close_def)
    then have "exec (map snd zs) closed = insert forward (insert remote closed)"
      by (auto simp: exec_eq)
    then show ?thesis
      using count_list_map_shuffles [OF z, of snd]
      by (simp add: comp_def copy_remote_local_def copy_local_remote_def close_def)
  qed
  have "exec (close forward remote @ close forward remote) closed = exec (close forward remote) closed"
    by (auto simp: close_def Conn_Close_def)
  moreover have "fst (Conn_Close forward (exec (close forward remote) closed)) \<noteq> None"
    and "fst (Conn_Close remote (exec (close forward remote) closed)) \<noteq> None"
    by (simp_all add: exec_close Conn_Close_def)
  ultimately show ?thesis
    using run exec_close by blast
qed

theorem close_unguarded_idempotent_witness:
  "example_relay_run \<in> relay_runs (Conn 1) (Conn 2) (CopyReturns None, CopyReturns (Some (Err ''closed'')))
   \<and> count_list (map snd example_relay_run) (ConnClose (Conn 1)) = 2
   \<and> exec (map snd example_relay_run) {} = {Conn 1, Conn 2}
   \<and> exec (close (Conn 1) (Conn 2) @ close (Conn 1) (Conn 2)) {} = exec (close (Conn 1) (Conn 2)) {}"
  using example_run
    close_unguarded_idempotent [of "Conn 1" "Conn 2" "{}" example_relay_run None "Some (Err ''closed'')"]
  by simp

section \<open>Properties of the tunnel\<close>

lemma accept_loop_append:
  "AcceptFails \<notin> set pre \<Longrightarrow>
     accept_loop client endpoint (pre @ its) =
       (fst (accept_loop client endpoint pre) @ fst (accept_loop client endpoint its),
        snd (accept_loop client endpoint its))"
  by (induction client endpoint pre rule: accept_loop.induct) (simp_all add: case_prod_beta)

lemma accept_loop_live:
  "AcceptFails \<notin> set its \<Longrightarrow> snd (accept_loop client endpoint its) = InAccept"
  by (induction client endpoint its rule: accept_loop.induct) (simp_all add: case_prod_beta)

lemma accept_loop_fails:
  "AcceptFails \<notin> set pre \<Longrightarrow>
     accept_loop client endpoint (pre @ AcceptFails # rest) =
       (fst (accept_loop client endpoint pre)
          @ [ListenerAccept None, LogPrintf ''local accept error: %v''], AcceptFailed)"
  by (simp add: accept_loop_append)

lemma accept_loop_dial_failures:
  "accept_loop client endpoint (map (\<lambda>c. Accepted c None) cs @ its) =
     (concat (map (\<lambda>c. [ListenerAccept (Some c),
                         ClientDial client (RemoteAddr endpoint) None,
                         LogPrintf ''remote dial error: %v'']) cs)
        @ fst (accept_loop client endpoint its),
      snd (accept_loop client endpoint its))"
  by (induction cs) (simp_all add: case_prod_beta)

lemma accept_loop_conns:
  "e \<in> set (fst (accept_loop client endpoint its)) \<Longrightarrow> set (conns_of e) \<subseteq> set (offered its)"
  by (induction client endpoint its rule: accept_loop.induct) (auto simp: case_prod_beta)

lemma accept_loop_no_close:
  "ConnClose c \<notin> set (fst (accept_loop client endpoint its))"
  by (induction client endpoint its rule: accept_loop.induct) (simp_all add: case_prod_beta)

lemma forwardEndpoint_no_close:
  "ConnClose c \<notin> set (fst (forwardEndpoint client endpoint env))"
  using accept_loop_no_close [of c client endpoint "iterations env"]
  by (simp add: forwardEndpoint_def Let_def case_prod_beta)

lemma relays_accept_loop:
  "(f, r) \<in> set (relays (fst (accept_loop client endpoint its))) \<Longrightarrow>
     f \<in> set (relayed its) \<and> r \<in> set (relayed its)"
  by (induction client endpoint its rule: accept_loop.induct) (auto simp: case_prod_beta)

lemma relays_forwardEndpoint:
  "(f, r) \<in> set (relays (fst (forwardEndpoint client endpoint env))) \<Longrightarrow>
     f \<in> set (relayed (iterations env)) \<and> r \<in> set (relayed (iterations env))"
  using relays_accept_loop [of f r client endpoint "iterations env"]
  by (auto simp: forwardEndpoint_def Let_def case_prod_beta split: if_splits)

lemma in_enumerate_snd: "(i, x) \<in> set (enumerate n xs) \<Longrightarrow> x \<in> set xs"
  by (induction xs arbitrary: n) auto

lemma relay_events_close:
  "ConnClose c \<in> set (relay_events res (i, f, r)) \<Longrightarrow> c = f \<or> c = r"
  by (auto simp: relay_events_def handleClient_def copy_remote_local_def copy_local_remote_def
        close_def split: copy_result.splits if_splits)

lemma listen_calls_append: "listen_calls (xs @ ys) = listen_calls xs @ listen_calls ys"
  by (induction xs rule: listen_calls.induct) simp_all

lemma listen_calls_accept_loop: "listen_calls (fst (accept_loop client endpoint its)) = []"
  by (induction client endpoint its rule: accept_loop.induct) (simp_all add: case_prod_beta)

lemma listen_calls_forwardEndpoint:
  "listen_calls (fst (forwardEndpoint client endpoint env)) = [LocalAddr endpoint]"
  by (simp add: forwardEndpoint_def Let_def case_prod_beta listen_calls_accept_loop)

lemma spec_run_stopped: "last (spec_tunnel_run Stopped inputs) = Stopped"
  by (induction inputs) simp_all

lemma spec_run_stopped_set: "set (spec_tunnel_run Stopped inputs) = {Stopped}"
  by (induction inputs) auto

lemma spec_run_nonempty: "spec_tunnel_run s inputs \<noteq> []"
  by (cases inputs) simp_all

lemma spec_run_accepting:
  "AcceptFails \<notin> set pre \<Longrightarrow>
     spec_tunnel_run Accepting (map accept_input pre @ inputs) =
       replicate (length pre) Accepting @ spec_tunnel_run Accepting inputs"
proof (induction pre)
  case Nil
  show ?case by simp
next
  case (Cons p ps)
  then show ?case by (cases p) simp_all
qed

lemma spec_run_accept_loop:
  "last (spec_tunnel_run Accepting (map accept_input its)) =
     state_of (snd (accept_loop client endpoint its))"
  by (induction client endpoint its rule: accept_loop.induct)
     (simp_all add: case_prod_beta spec_run_nonempty spec_run_stopped)

lemma spec_run_forwardEndpoint:
  "last (spec_tunnel_run Unbound (tunnel_inputs env)) =
     state_of (snd (forwardEndpoint client endpoint env))"
  using spec_run_accept_loop [of "iterations env" client endpoint]
  by (simp add: tunnel_inputs_def forwardEndpoint_def Let_def case_prod_beta
        spec_run_nonempty spec_run_stopped)

text \<open>
  C4. On a tunnel that is live (no accept has failed so far), an accepted
  connection whose \<open>client.Dial\<close> fails costs three events: the accept, the
  failed dial and the log line \<open>remote dial error\<close>. The connection is
  abandoned: the loop goes on with the rest of its environment exactly as a
  tunnel without that connection would, on the same listener (one
  \<open>net.Listen\<close> call in the whole trace), and no later event of the tunnel
  refers to the connection (the tunnel does not close it). After any number of
  such failures the next accepted connection whose dial succeeds is handed to a
  relay, and the tunnel waits in \<open>Accept\<close> again.
\<close>

theorem dial_failure_keeps_tunnel:
  assumes "AcceptFails \<notin> set pre"
  shows "forwardEndpoint client endpoint
           \<lparr>listen_ok = True, iterations = pre @ Accepted forward None # rest\<rparr> =
           (fst (forwardEndpoint client endpoint \<lparr>listen_ok = True, iterations = pre\<rparr>)
              @ [ListenerAccept (Some forward),
                 ClientDial client (RemoteAddr endpoint) None,
                 LogPrintf ''remote dial error: %v'']
              @ fst (accept_loop client endpoint rest),
            snd (accept_loop client endpoint rest))
       \<and> (AcceptFails \<notin> set rest \<longrightarrow>
            snd (forwardEndpoint client endpoint
                   \<lparr>listen_ok = True, iterations = pre @ Accepted forward None # rest\<rparr>) = InAccept)
       \<and> (forward \<notin> set (offered rest) \<longrightarrow>
            (\<forall>e \<in> set (fst (accept_loop client endpoint rest)). forward \<notin> set (conns_of e)))
       \<and> listen_calls (fst (forwardEndpoint client endpoint
            \<lparr>listen_ok = True, iterations = pre @ Accepted forward None # rest\<rparr>)) = [LocalAddr endpoint]
       \<and> forwardEndpoint client endpoint
           \<lparr>listen_ok = True,
            iterations = map (\<lambda>c. Accepted c None) cs @ [Accepted forward' (Some remote')]\<rparr> =
           ([LogPrintf ''Forwarding %v from <%v> to <%v>'', NetListen (LocalAddr endpoint) True]
              @ concat (map (\<lambda>c. [ListenerAccept (Some c),
                                    ClientDial client (RemoteAddr endpoint) None,
                                    LogPrintf ''remote dial error: %v'']) cs)
              @ [ListenerAccept (Some forward'),
                 ClientDial client (RemoteAddr endpoint) (Some remote'),
                 GoHandleClient forward' remote'],
            InAccept)"
proof -
  have a: "forwardEndpoint client endpoint
           \<lparr>listen_ok = True, iterations = pre @ Accepted forward None # rest\<rparr> =
           (fst (forwardEndpoint client endpoint \<lparr>listen_ok = True, iterations = pre\<rparr>)
              @ [ListenerAccept (Some forward),
                 ClientDial client (RemoteAddr endpoint) None,
                 LogPrintf ''remote dial error: %v'']
              @ fst (accept_loop client endpoint rest),
            snd (accept_loop client endpoint rest))"
    using accept_loop_append [OF assms, of client endpoint "Accepted forward None # rest"]
    by (simp add: forwardEndpoint_def case_prod_beta)
  have b: "snd (forwardEndpoint client endpoint
                   \<lparr>listen_ok = True, iterations = pre @ Accepted forward None # rest\<rparr>) = InAccept"
    if "AcceptFails \<notin> set rest"
    using accept_loop_live [OF that] by (simp add: a)
  have c: "forwardEndpoint client endpoint
           \<lparr>listen_ok = True,
            iterations = map (\<lambda>c. Accepted c None) cs @ [Accepted forward' (Some remote')]\<rparr> =
           ([LogPrintf ''Forwarding %v from <%v> to <%v>'', NetListen (LocalAddr endpoint) True]
              @ concat (map (\<lambda>c. [ListenerAccept (Some c),
                                    ClientDial client (RemoteAddr endpoint) None,
                                    LogPrintf ''remote dial error: %v'']) cs)
              @ [ListenerAccept (Some forward'),
                 ClientDial client (RemoteAddr endpoint) (Some remote'),
                 GoHandleClient forward' remote'],
            InAccept)"
    by (simp add: forwardEndpoint_def accept_loop_dial_failures)
  have d: "\<forall>e \<in> set (fst (accept_loop client endpoint rest)). forward \<notin> set (conns_of e)"
    if "forward \<notin> set (offered rest)"
    using that accept_loop_conns [of _ client endpoint rest] by blast
  show ?thesis
    using a b c d listen_calls_forwardEndpoint by blast
qed

theorem dial_failure_keeps_tunnel_witness:
  "AcceptFails \<notin> set []
   \<and> AcceptFails \<notin> set [Accepted (Conn 1) (Some (Conn 2))]
   \<and> Conn 0 \<notin> set (offered [Accepted (Conn 1) (Some (Conn 2))])
   \<and> forwardEndpoint (Client 0) example_endpoint example_env =
       ([LogPrintf ''Forwarding %v from <%v> to <%v>'', NetListen ''127.0.0.1:9001'' True,
         ListenerAccept (Some (Conn 0)), ClientDial (Client 0) ''10.0.0.5:22'' None,
         LogPrintf ''remote dial error: %v'',
         ListenerAccept (Some (Conn 1)), ClientDial (Client 0) ''10.0.0.5:22'' (Some (Conn 2)),
         GoHandleClient (Conn 1) (Conn 2)], InAccept)"
  using dial_failure_keeps_tunnel [of "[]" "Client 0" example_endpoint "Conn 0"
      "[Accepted (Conn 1) (Some (Conn 2))]"]
  by (simp add: example_env_def example_endpoint_def forwardEndpoint_def)

text \<open>
  C5. When \<open>client.Dial\<close> fails for an accepted connection, and that connection
  is not one that this tunnel hands to a relay (every \<open>Accept\<close> and \<open>Dial\<close>
  returns a connection of its own), then no \<open>Close\<close> of it is among the events of
  the tunnel and of all the relays the tunnel starts. The tunnel's own trace
  holds no \<open>Close\<close> at all: it leaves the state of every connection as it was.
\<close>

theorem dial_failure_leaks_connection:
  assumes "Accepted c None \<in> set (iterations env)"
    and "c \<notin> set (relayed (iterations env))"
  shows "ConnClose c \<notin> set (tunnel_and_relays client endpoint env res)
       \<and> exec (fst (forwardEndpoint client endpoint env)) closed = closed"
proof -
  have "ConnClose c \<notin> set (relay_events res p)"
    if "p \<in> set (enumerate 0 (relays (fst (forwardEndpoint client endpoint env))))" for p
  proof -
    obtain i f r where p: "p = (i, f, r)" by (cases p) auto
    with that have "(f, r) \<in> set (relays (fst (forwardEndpoint client endpoint env)))"
      by (simp add: in_enumerate_snd)
    then have "c \<noteq> f \<and> c \<noteq> r"
      using relays_forwardEndpoint assms(2) by blast
    then show ?thesis
      using relay_events_close [of c res i f r] by (auto simp: p)
  qed
  then have "ConnClose c \<notin> set (tunnel_and_relays client endpoint env res)"
    by (auto simp: tunnel_and_relays_def Let_def forwardEndpoint_no_close)
  moreover have "exec (fst (forwardEndpoint client endpoint env)) closed = closed"
    by (rule exec_no_close) (simp add: forwardEndpoint_no_close)
  ultimately show ?thesis by simp
qed

theorem dial_failure_leaks_connection_witness:
  "Accepted (Conn 0) None \<in> set (iterations example_env)
   \<and> Conn 0 \<notin> set (relayed (iterations example_env))
   \<and> ConnClose (Conn 0) \<notin> set (tunnel_and_relays (Client 0) example_endpoint example_env
         (\<lambda>i. (CopyReturns None, CopyReturns None)))
   \<and> exec (fst (forwardEndpoint (Client 0) example_endpoint example_env)) {} = {}"
  using dial_failure_leaks_connection [of "Conn 0" example_env "Client 0" example_endpoint
      "\<lambda>i. (CopyReturns None, CopyReturns None)" "{}"]
  by (simp add: example_env_def)

text \<open>
  C8. \<open>forwardEndpoint\<close> follows the specification's machine: in every
  environment the state the machine ends in is the one the goroutine is in, and
  the goroutine calls \<open>net.Listen\<close> once, at the endpoint's local address. After a
  bind error it has logged and returned with no \<open>Accept\<close>, and the machine has
  gone from \<open>Unbound\<close> to \<open>Stopped\<close> and stayed there. After the first accept
  error it has logged and returned: the rest of the environment changes nothing
  (no retry, no second bind, no further accept), and the machine, having been
  in \<open>Accepting\<close> up to that error, stays in \<open>Stopped\<close>.
\<close>

theorem tunnel_state_machine:
  assumes "AcceptFails \<notin> set pre"
  shows "last (spec_tunnel_run Unbound (tunnel_inputs env)) =
           state_of (snd (forwardEndpoint client endpoint env))
       \<and> listen_calls (fst (forwardEndpoint client endpoint env)) = [LocalAddr endpoint]
       \<and> forwardEndpoint client endpoint \<lparr>listen_ok = False, iterations = its\<rparr> =
           ([LogPrintf ''Forwarding %v from <%v> to <%v>'',
             NetListen (LocalAddr endpoint) False,
             LogPrintf ''forwarding port bind error: %v\<newline>''], BindFailed)
       \<and> spec_tunnel_run Unbound (tunnel_inputs \<lparr>listen_ok = False, iterations = its\<rparr>) =
           Unbound # replicate (Suc (Suc (length its))) Stopped
       \<and> forwardEndpoint client endpoint
           \<lparr>listen_ok = True, iterations = pre @ AcceptFails # rest\<rparr> =
           (fst (forwardEndpoint client endpoint \<lparr>listen_ok = True, iterations = pre\<rparr>)
              @ [ListenerAccept None, LogPrintf ''local accept error: %v''], AcceptFailed)
       \<and> snd (forwardEndpoint client endpoint \<lparr>listen_ok = True, iterations = pre\<rparr>) = InAccept
       \<and> spec_tunnel_run Unbound
             (tunnel_inputs \<lparr>listen_ok = True, iterations = pre @ AcceptFails # rest\<rparr>) =
           Unbound # Listening # replicate (Suc (length pre)) Accepting
             @ replicate (Suc (length rest)) Stopped"
proof -
  have bind: "forwardEndpoint client endpoint \<lparr>listen_ok = False, iterations = its\<rparr> =
           ([LogPrintf ''Forwarding %v from <%v> to <%v>'',
             NetListen (LocalAddr endpoint) False,
             LogPrintf ''forwarding port bind error: %v\<newline>''], BindFailed)"
    by (simp add: forwardEndpoint_def)
  have stopped: "spec_tunnel_run Stopped inputs = replicate (Suc (length inputs)) Stopped" for inputs
    by (induction inputs) simp_all
  have never: "spec_tunnel_run Unbound (tunnel_inputs \<lparr>listen_ok = False, iterations = its\<rparr>) =
           Unbound # replicate (Suc (Suc (length its))) Stopped"
    by (simp add: tunnel_inputs_def stopped)
  have acc: "forwardEndpoint client endpoint
           \<lparr>listen_ok = True, iterations = pre @ AcceptFails # rest\<rparr> =
           (fst (forwardEndpoint client endpoint \<lparr>listen_ok = True, iterations = pre\<rparr>)
              @ [ListenerAccept None, LogPrintf ''local accept error: %v''], AcceptFailed)"
    using accept_loop_fails [OF assms, of client endpoint rest]
    by (simp add: forwardEndpoint_def case_prod_beta)
  have live: "snd (forwardEndpoint client endpoint \<lparr>listen_ok = True, iterations = pre\<rparr>) = InAccept"
    using accept_loop_live [OF assms, of client endpoint]
    by (simp add: forwardEndpoint_def case_prod_beta)
  have fin: "spec_tunnel_run Unbound
             (tunnel_inputs \<lparr>listen_ok = True, iterations = pre @ AcceptFails # rest\<rparr>) =
           Unbound # Listening # replicate (Suc (length pre)) Accepting
             @ replicate (Suc (length rest)) Stopped"
    using spec_run_accepting [OF assms, of "AcceptResult False # map accept_input rest"]
    by (simp add: tunnel_inputs_def stopped replicate_append_same)
  show ?thesis
    using bind never acc live fin spec_run_forwardEndpoint listen_calls_forwardEndpoint by blast
qed

theorem tunnel_state_machine_witness:
  "AcceptFails \<notin> set [Accepted (Conn 0) None]
   \<and> forwardEndpoint (Client 0) example_endpoint
       \<lparr>listen_ok = True,
        iterations = [Accepted (Conn 0) None, AcceptFails, Accepted (Conn 1) (Some (Conn 2))]\<rparr> =
       ([LogPrintf ''Forwarding %v from <%v> to <%v>'', NetListen ''127.0.0.1:9001'' True,
         ListenerAccept (Some (Conn 0)), ClientDial (Client 0) ''10.0.0.5:22'' None,
         LogPrintf ''remote dial error: %v'',
         ListenerAccept None, LogPrintf ''local accept error: %v''], AcceptFailed)
   \<and> spec_tunnel_run Unbound (tunnel_inputs
       \<lparr>listen_ok = True,
        iterations = [Accepted (Conn 0) None, AcceptFails, Accepted (Conn 1) (Some (Conn 2))]\<rparr>) =
       [Unbound, Listening, Accepting, Accepting, Stopped, Stopped]"
  using tunnel_state_machine [of "[Accepted (Conn 0) None]" example_env "Client 0" example_endpoint
      "[]" "[Accepted (Conn 1) (Some (Conn 2))]"]
  by (simp add: example_endpoint_def forwardEndpoint_def tunnel_inputs_def)

section \<open>Properties of the orchestrator and of the process\<close>

lemma ssh_dials_append: "ssh_dials (xs @ ys) = ssh_dials xs @ ssh_dials ys"
  by (induction xs rule: ssh_dials.induct) simp_all

lemma spawned_append: "spawned (xs @ ys) = spawned xs @ spawned ys"
  by (induction xs rule: spawned.induct) simp_all

lemma bound_append: "bound (xs @ ys) = bound xs @ bound ys"
  by (induction xs rule: bound.induct) simp_all

lemma bound_subset: "set (bound es) \<subseteq> set (listen_calls es)"
  by (induction es rule: bound.induct) auto

lemma ssh_dials_go: "ssh_dials (map (GoForwardEndpoint c) es) = []"
  by (induction es) simp_all

lemma spawned_go: "spawned (map (GoForwardEndpoint c) es) = map (Pair c) es"
  by (induction es) simp_all

lemma listen_calls_go: "listen_calls (map (GoForwardEndpoint c) es) = []"
  by (induction es) simp_all

lemma connect_hosts_ok:
  "\<forall>j < length hosts. ssh_Dial w (n + j) (Address (hosts ! j)) username \<Longrightarrow>
     snd (connect_hosts w username n hosts) \<and>
     ssh_dials (fst (connect_hosts w username n hosts)) = map Address hosts \<and>
     map snd (spawned (fst (connect_hosts w username n hosts))) = concat (map Endpoints hosts) \<and>
     listen_calls (fst (connect_hosts w username n hosts)) = []"
proof (induction hosts arbitrary: n)
  case Nil
  show ?case by simp
next
  case (Cons h hs)
  from Cons.prems have h: "ssh_Dial w n (Address h) username" by force
  from Cons.prems have "\<forall>j < length hs. ssh_Dial w (Suc n + j) (Address (hs ! j)) username"
    by force
  from Cons.IH [OF this] h show ?case
    by (simp add: Let_def case_prod_beta ssh_dials_append ssh_dials_go spawned_append spawned_go
          listen_calls_append listen_calls_go comp_def)
qed

lemma connect_hosts_fail:
  "\<forall>j < length pre. ssh_Dial w (n + j) (Address (pre ! j)) username \<Longrightarrow>
   \<not> ssh_Dial w (n + length pre) (Address h) username \<Longrightarrow>
     \<not> snd (connect_hosts w username n (pre @ h # post)) \<and>
     ssh_dials (fst (connect_hosts w username n (pre @ h # post))) = map Address pre @ [Address h] \<and>
     map snd (spawned (fst (connect_hosts w username n (pre @ h # post)))) = concat (map Endpoints pre) \<and>
     listen_calls (fst (connect_hosts w username n (pre @ h # post))) = [] \<and>
     fst (connect_hosts w username n (pre @ h # post)) \<noteq> [] \<and>
     last (fst (connect_hosts w username n (pre @ h # post))) = SshDial (Address h) username False"
proof (induction pre arbitrary: n)
  case Nil
  then show ?case by simp
next
  case (Cons p ps)
  from Cons.prems have p: "ssh_Dial w n (Address p) username" by force
  from Cons.prems have a: "\<forall>j < length ps. ssh_Dial w (Suc n + j) (Address (ps ! j)) username"
    by force
  from Cons.prems have b: "\<not> ssh_Dial w (Suc n + length ps) (Address h) username" by simp
  from Cons.IH [OF a b] p show ?case
    by (simp add: Let_def case_prod_beta ssh_dials_append ssh_dials_go spawned_append spawned_go
          listen_calls_append listen_calls_go comp_def)
qed

lemma main_connected:
  assumes "filename \<noteq> []" and "username \<noteq> []"
    and "os_Open w filename" and "json_Decode w filename = Some envConfig"
    and "net_Dial_unix w (os_Getenv w ''SSH_AUTH_SOCK'')"
    and "snd (connect_hosts w username 0 (Hosts envConfig))"
  shows "main filename username w =
      ([OsOpen filename True, JsonDecode True, OsGetenv ''SSH_AUTH_SOCK'',
        NetDialUnix (os_Getenv w ''SSH_AUTH_SOCK'') True,
        LogPrintf ''Initiating tunnels for %s\<newline>'']
       @ fst (connect_hosts w username 0 (Hosts envConfig))
       @ [HttpListenAndServe '':0'' (http_ListenAndServe w '':0'')],
       if http_ListenAndServe w '':0'' = HttpServesForever then Serving else Fatal)"
  using assms by (simp add: main_def Let_def case_prod_beta)

lemma main_agent_fails:
  assumes "\<not> net_Dial_unix w (os_Getenv w ''SSH_AUTH_SOCK'')"
  shows "main filename username w =
     (if filename = [] \<or> username = [] then ([FlagUsage], Returned)
      else if \<not> os_Open w filename
      then ([OsOpen filename False], Fatalf ''Failed to open config: %v'')
      else if json_Decode w filename = None
      then ([OsOpen filename True, JsonDecode False], Fatalf ''Failed to unmarshal config: %v'')
      else ([OsOpen filename True, JsonDecode True, OsGetenv ''SSH_AUTH_SOCK'',
             NetDialUnix (os_Getenv w ''SSH_AUTH_SOCK'') False],
            Fatalf ''Failed to open SSH_AUTH_SOCK: %v''))"
  using assms by (auto simp: main_def Let_def split: option.splits)

lemma listen_calls_tunnels:
  "listen_calls (concat (map fst (map (run_tunnel envs) ps))) = map (\<lambda>p. LocalAddr (snd (snd p))) ps"
  by (induction ps)
     (simp_all add: listen_calls_append run_tunnel_def case_prod_beta listen_calls_forwardEndpoint)

lemma map_snd_enumerate_fun: "map (\<lambda>p. g (snd p)) (enumerate n xs) = map g xs"
  by (induction xs arbitrary: n) simp_all

lemma listen_calls_all_tunnels:
  "listen_calls (concat (map fst (tunnels envs tr))) = map LocalAddr (map snd (spawned tr))"
proof -
  have "listen_calls (concat (map fst (tunnels envs tr))) =
      map (\<lambda>p. LocalAddr (snd (snd p))) (enumerate 0 (spawned tr))"
    unfolding tunnels_def by (rule listen_calls_tunnels)
  also have "\<dots> = map (\<lambda>q. LocalAddr (snd q)) (spawned tr)"
    by (rule map_snd_enumerate_fun)
  also have "\<dots> = map LocalAddr (map snd (spawned tr))"
    by (simp add: comp_def)
  finally show ?thesis .
qed

lemma tunnels_sibling:
  "j < length (spawned tr) \<Longrightarrow> j \<noteq> i \<Longrightarrow>
     tunnels (envs(i := env')) tr ! j = tunnels envs tr ! j"
  by (simp add: tunnels_def run_tunnel_def nth_enumerate_eq)

lemma tunnels_length: "length (tunnels envs tr) = length (spawned tr)"
  by (simp add: tunnels_def)

lemma connect_hosts_prefix:
  "\<exists>k. ssh_dials (fst (connect_hosts w username n hosts)) = map Address (take k hosts)"
proof (induction hosts arbitrary: n)
  case Nil
  show ?case by simp
next
  case (Cons h hs)
  show ?case
  proof (cases "ssh_Dial w n (Address h) username")
    case False
    then have "ssh_dials (fst (connect_hosts w username n (h # hs))) = map Address (take 1 (h # hs))"
      by simp
    then show ?thesis by blast
  next
    case True
    from Cons.IH [of "Suc n"] obtain k where
      "ssh_dials (fst (connect_hosts w username (Suc n) hs)) = map Address (take k hs)" by blast
    with True have
      "ssh_dials (fst (connect_hosts w username n (h # hs))) = map Address (take (Suc k) (h # hs))"
      by (simp add: Let_def case_prod_beta ssh_dials_append ssh_dials_go)
    then show ?thesis by blast
  qed
qed

lemma main_reached:
  assumes "filename \<noteq> []" and "username \<noteq> []"
    and "os_Open w filename" and "json_Decode w filename = Some envConfig"
    and "net_Dial_unix w (os_Getenv w ''SSH_AUTH_SOCK'')"
  shows "fst (main filename username w) =
      [OsOpen filename True, JsonDecode True, OsGetenv ''SSH_AUTH_SOCK'',
       NetDialUnix (os_Getenv w ''SSH_AUTH_SOCK'') True,
       LogPrintf ''Initiating tunnels for %s\<newline>'']
       @ fst (connect_hosts w username 0 (Hosts envConfig))
       @ (if snd (connect_hosts w username 0 (Hosts envConfig))
          then [HttpListenAndServe '':0'' (http_ListenAndServe w '':0'')] else [])"
    and "\<not> snd (connect_hosts w username 0 (Hosts envConfig)) \<Longrightarrow>
           snd (main filename username w) = Fatal"
  using assms by (simp_all add: main_def Let_def case_prod_beta)

text \<open>
  C6. Once \<open>main\<close> has its configuration and its agent connection, the
  \<open>ssh.Dial\<close> calls it makes are those of a leading part of the configured
  hosts, in the order of the configuration. When the hosts before \<open>h\<close> connect
  and \<open>h\<close> does not, the calls are exactly those for the hosts up to \<open>h\<close>, the
  failed call is the last event of \<open>main\<close>, which ends in \<open>log.Fatal\<close>, and the
  tunnels started are those of the hosts before \<open>h\<close>: no host after \<open>h\<close> is tried.
\<close>

theorem first_session_failure_aborts:
  assumes "filename \<noteq> []" and "username \<noteq> []"
    and "os_Open w filename" and "json_Decode w filename = Some envConfig"
    and "net_Dial_unix w (os_Getenv w ''SSH_AUTH_SOCK'')"
  shows "(\<exists>k. ssh_dials (fst (main filename username w)) = map Address (take k (Hosts envConfig)))
       \<and> (Hosts envConfig = pre @ h # post
            \<and> (\<forall>j < length pre. ssh_Dial w j (Address (pre ! j)) username)
            \<and> \<not> ssh_Dial w (length pre) (Address h) username \<longrightarrow>
              snd (main filename username w) = Fatal
            \<and> ssh_dials (fst (main filename username w)) = map Address pre @ [Address h]
            \<and> last (fst (main filename username w)) = SshDial (Address h) username False
            \<and> map snd (spawned (fst (main filename username w))) = concat (map Endpoints pre))"
proof -
  note m = main_reached [OF assms]
  have order: "\<exists>k. ssh_dials (fst (main filename username w)) = map Address (take k (Hosts envConfig))"
    using connect_hosts_prefix [of w username 0 "Hosts envConfig"]
    by (simp add: m(1) ssh_dials_append)
  have fail: "snd (main filename username w) = Fatal
            \<and> ssh_dials (fst (main filename username w)) = map Address pre @ [Address h]
            \<and> last (fst (main filename username w)) = SshDial (Address h) username False
            \<and> map snd (spawned (fst (main filename username w))) = concat (map Endpoints pre)"
    if hosts: "Hosts envConfig = pre @ h # post"
      and pre: "\<forall>j < length pre. ssh_Dial w j (Address (pre ! j)) username"
      and h: "\<not> ssh_Dial w (length pre) (Address h) username"
  proof -
    have "\<forall>j < length pre. ssh_Dial w (0 + j) (Address (pre ! j)) username"
      using pre by simp
    moreover have "\<not> ssh_Dial w (0 + length pre) (Address h) username"
      using h by simp
    ultimately have c:
      "\<not> snd (connect_hosts w username 0 (pre @ h # post)) \<and>
       ssh_dials (fst (connect_hosts w username 0 (pre @ h # post))) = map Address pre @ [Address h] \<and>
       map snd (spawned (fst (connect_hosts w username 0 (pre @ h # post)))) = concat (map Endpoints pre) \<and>
       listen_calls (fst (connect_hosts w username 0 (pre @ h # post))) = [] \<and>
       fst (connect_hosts w username 0 (pre @ h # post)) \<noteq> [] \<and>
       last (fst (connect_hosts w username 0 (pre @ h # post))) = SshDial (Address h) username False"
      by (rule connect_hosts_fail)
    then show ?thesis
      using m(2) by (simp add: m(1) hosts ssh_dials_append spawned_append)
  qed
  show ?thesis using order fail by blast
qed

theorem first_session_failure_aborts_witness:
  "snd (main ''hosts.json'' ''alice'' (example_world\<lparr>ssh_Dial := \<lambda>n addr user. n = 0\<rparr>)) = Fatal
   \<and> ssh_dials (fst (main ''hosts.json'' ''alice'' (example_world\<lparr>ssh_Dial := \<lambda>n addr user. n = 0\<rparr>)))
       = [''bastion:22'', ''db:22'']
   \<and> map snd (spawned (fst (main ''hosts.json'' ''alice''
         (example_world\<lparr>ssh_Dial := \<lambda>n addr user. n = 0\<rparr>)))) = [example_endpoint, example_endpoint2]"
  using first_session_failure_aborts [of "''hosts.json''" "''alice''"
      "example_world\<lparr>ssh_Dial := \<lambda>n addr user. n = 0\<rparr>" example_config
      "[\<lparr>Address = ''bastion:22'', Endpoints = [example_endpoint, example_endpoint2], HostName = ''bastion''\<rparr>]"
      "\<lparr>Address = ''db:22'', Endpoints = [], HostName = ''db''\<rparr>"
      "[\<lparr>Address = ''cache:22'', Endpoints = [], HostName = ''cache''\<rparr>]"]
  by (simp add: example_world_def example_config_def)

text \<open>
  C10. When the file name or the user name is empty, \<open>main\<close> calls \<open>flag.Usage\<close>
  and returns: that is its whole trace (no file opened, no socket dialled, no
  session, no listener), and no goroutine has been started.
\<close>

theorem missing_parameter_shows_usage:
  "filename = [] \<or> username = [] \<Longrightarrow>
     process filename username w envs = (([FlagUsage], Returned), [])"
  by (auto simp: process_def main_def tunnels_def)

theorem missing_parameter_shows_usage_witness:
  "process [] ''alice'' example_world (\<lambda>i. example_env) = (([FlagUsage], Returned), [])
   \<and> process ''hosts.json'' [] example_world (\<lambda>i. example_env) = (([FlagUsage], Returned), [])"
  using missing_parameter_shows_usage [of "[]" "''alice''" example_world "\<lambda>i. example_env"]
    missing_parameter_shows_usage [of "''hosts.json''" "[]" example_world "\<lambda>i. example_env"]
  by simp

text \<open>
  C9. When the socket that \<open>SSH_AUTH_SOCK\<close> names cannot be dialled (an unset
  variable names the empty path), the process makes no \<open>ssh.Dial\<close> call, starts
  no tunnel, asks for no listener, and does not stay alive. Started with both
  parameters it ends in \<open>log.Fatalf\<close>; when the configuration was read, the
  failed dial of the socket is its last event and the message is the one of
  line 67.
\<close>

theorem agent_unreachable_is_fatal:
  assumes "\<not> net_Dial_unix w (os_Getenv w ''SSH_AUTH_SOCK'')"
  shows "ssh_dials (fst (main filename username w)) = []
       \<and> snd (process filename username w envs) = []
       \<and> listen_calls (process_events (process filename username w envs)) = []
       \<and> snd (main filename username w) \<noteq> Serving
       \<and> (filename \<noteq> [] \<and> username \<noteq> [] \<longrightarrow>
            snd (main filename username w) \<in>
              {Fatalf ''Failed to open config: %v'', Fatalf ''Failed to unmarshal config: %v'',
               Fatalf ''Failed to open SSH_AUTH_SOCK: %v''})
       \<and> (filename \<noteq> [] \<and> username \<noteq> [] \<and> os_Open w filename \<and> json_Decode w filename \<noteq> None \<longrightarrow>
            main filename username w =
              ([OsOpen filename True, JsonDecode True, OsGetenv ''SSH_AUTH_SOCK'',
                NetDialUnix (os_Getenv w ''SSH_AUTH_SOCK'') False],
               Fatalf ''Failed to open SSH_AUTH_SOCK: %v''))"
  by (simp add: process_def process_events_def Let_def tunnels_def main_agent_fails [OF assms])

theorem agent_unreachable_is_fatal_witness:
  "\<not> net_Dial_unix (example_world\<lparr>net_Dial_unix := \<lambda>path. False\<rparr>)
        (os_Getenv (example_world\<lparr>net_Dial_unix := \<lambda>path. False\<rparr>) ''SSH_AUTH_SOCK'')
   \<and> main ''hosts.json'' ''alice'' (example_world\<lparr>net_Dial_unix := \<lambda>path. False\<rparr>) =
       ([OsOpen ''hosts.json'' True, JsonDecode True, OsGetenv ''SSH_AUTH_SOCK'',
         NetDialUnix ''/tmp/agent.sock'' False], Fatalf ''Failed to open SSH_AUTH_SOCK: %v'')
   \<and> snd (process ''hosts.json'' ''alice'' (example_world\<lparr>net_Dial_unix := \<lambda>path. False\<rparr>)
         (\<lambda>i. example_env)) = []"
  using agent_unreachable_is_fatal [of "example_world\<lparr>net_Dial_unix := \<lambda>path. False\<rparr>"
      "''hosts.json''" "''alice''" "\<lambda>i. example_env"]
  by (simp add: example_world_def)

text \<open>
  C7. A tunnel whose \<open>net.Listen\<close> fails logs \<open>forwarding port bind error\<close> and
  returns: its trace has no \<open>Accept\<close>, whatever connections wait. Making the bind
  of the \<open>i\<close>-th tunnel of a process fail changes nothing of \<open>main\<close> and nothing
  of any other tunnel: each keeps its trace and its status.
\<close>

theorem bind_failure_isolated:
  "forwardEndpoint client endpoint \<lparr>listen_ok = False, iterations = its\<rparr> =
     ([LogPrintf ''Forwarding %v from <%v> to <%v>'',
       NetListen (LocalAddr endpoint) False,
       LogPrintf ''forwarding port bind error: %v\<newline>''], BindFailed)
   \<and> fst (process filename username w (envs(i := (envs i)\<lparr>listen_ok := False\<rparr>))) =
       fst (process filename username w envs)
   \<and> length (snd (process filename username w (envs(i := (envs i)\<lparr>listen_ok := False\<rparr>)))) =
       length (snd (process filename username w envs))
   \<and> (\<forall>j < length (snd (process filename username w envs)). j \<noteq> i \<longrightarrow>
         snd (process filename username w (envs(i := (envs i)\<lparr>listen_ok := False\<rparr>))) ! j =
         snd (process filename username w envs) ! j)"
  by (simp add: forwardEndpoint_def process_def Let_def tunnels_length tunnels_sibling)

theorem bind_failure_isolated_witness:
  "(1::nat) < length (snd (process ''hosts.json'' ''alice'' example_world (\<lambda>i. example_env)))
   \<and> (1::nat) \<noteq> 0
   \<and> snd (process ''hosts.json'' ''alice'' example_world
         ((\<lambda>i. example_env)(0 := example_env\<lparr>listen_ok := False\<rparr>))) ! 1 =
       snd (process ''hosts.json'' ''alice'' example_world (\<lambda>i. example_env)) ! 1
   \<and> snd (snd (process ''hosts.json'' ''alice'' example_world
         ((\<lambda>i. example_env)(0 := example_env\<lparr>listen_ok := False\<rparr>))) ! 0) = BindFailed
   \<and> snd (snd (process ''hosts.json'' ''alice'' example_world (\<lambda>i. example_env)) ! 1) = InAccept"
  using bind_failure_isolated [of "Client 0" example_endpoint "iterations example_env"
      "''hosts.json''" "''alice''" example_world "\<lambda>i. example_env" 0]
  by (simp add: process_def main_def tunnels_def run_tunnel_def
        forwardEndpoint_def example_world_def example_config_def example_env_def Let_def)

text \<open>
  C3, as the claim words it, fails: \<open>main\<close> blocks in
  \<open>http.ListenAndServe(":0", nil)\<close>, which binds a listening socket of its own.
  With the example configuration, in a world where every call succeeds, the
  process serves for ever and has three listening sockets: the two of its
  endpoints and one at \<open>:0\<close>, which is no endpoint's local address.
\<close>

theorem extra_listener_counterexample:
  "snd (fst (process ''hosts.json'' ''alice'' example_world (\<lambda>i. example_env))) = Serving
   \<and> bound (process_events (process ''hosts.json'' ''alice'' example_world (\<lambda>i. example_env))) =
       [''127.0.0.1:9001'', ''127.0.0.1:9002'', '':0'']
   \<and> map LocalAddr (concat (map Endpoints (Hosts example_config))) =
       [''127.0.0.1:9001'', ''127.0.0.1:9002'']"
  by (simp add: process_def process_events_def main_def tunnels_def run_tunnel_def
        forwardEndpoint_def example_world_def example_config_def example_env_def
        example_endpoint_def example_endpoint2_def Let_def)

text \<open>
  C3, amended. After all tunnels are launched (every host has connected),
  \<open>main\<close> calls \<open>http.ListenAndServe\<close> at \<open>:0\<close> as its last event and stays there
  for as long as that call serves; when the call returns, the process ends in
  \<open>log.Fatal\<close>. The listen calls of the process are one \<open>net.Listen\<close> per
  configured endpoint, at the endpoint's local address, and the one at \<open>:0\<close>:
  every bound listening socket is at one of these addresses, and the one at
  \<open>:0\<close> is bound unless its bind fails.
\<close>

theorem listeners_of_process:
  assumes "filename \<noteq> []" and "username \<noteq> []"
    and "os_Open w filename" and "json_Decode w filename = Some envConfig"
    and "net_Dial_unix w (os_Getenv w ''SSH_AUTH_SOCK'')"
    and "\<forall>j < length (Hosts envConfig). ssh_Dial w j (Address (Hosts envConfig ! j)) username"
  shows "listen_calls (process_events (process filename username w envs)) =
           map LocalAddr (concat (map Endpoints (Hosts envConfig))) @ ['':0'']
       \<and> map snd (spawned (fst (fst (process filename username w envs)))) =
           concat (map Endpoints (Hosts envConfig))
       \<and> snd (fst (process filename username w envs)) =
           (if http_ListenAndServe w '':0'' = HttpServesForever then Serving else Fatal)
       \<and> last (fst (fst (process filename username w envs))) =
           HttpListenAndServe '':0'' (http_ListenAndServe w '':0'')
       \<and> set (bound (process_events (process filename username w envs))) \<subseteq>
           set (map LocalAddr (concat (map Endpoints (Hosts envConfig)))) \<union> {'':0''}
       \<and> (http_ListenAndServe w '':0'' \<noteq> HttpBindError \<longrightarrow>
            '':0'' \<in> set (bound (process_events (process filename username w envs))))"
proof -
  have "\<forall>j < length (Hosts envConfig). ssh_Dial w (0 + j) (Address (Hosts envConfig ! j)) username"
    using assms(6) by simp
  then have c: "snd (connect_hosts w username 0 (Hosts envConfig)) \<and>
     ssh_dials (fst (connect_hosts w username 0 (Hosts envConfig))) = map Address (Hosts envConfig) \<and>
     map snd (spawned (fst (connect_hosts w username 0 (Hosts envConfig)))) =
       concat (map Endpoints (Hosts envConfig)) \<and>
     listen_calls (fst (connect_hosts w username 0 (Hosts envConfig))) = []"
    by (rule connect_hosts_ok)
  note m = main_connected [OF assms(1-5) conjunct1 [OF c]]
  have sp: "map snd (spawned (fst (main filename username w))) =
      concat (map Endpoints (Hosts envConfig))"
    using c by (simp add: m spawned_append)
  have lm: "listen_calls (fst (main filename username w)) = ['':0'']"
    using c by (simp add: m listen_calls_append)
  have l: "listen_calls (process_events (process filename username w envs)) =
           map LocalAddr (concat (map Endpoints (Hosts envConfig))) @ ['':0'']"
    by (simp add: process_events_def process_def Let_def listen_calls_append
          listen_calls_all_tunnels sp lm del: map_map map_concat)
  have b: "set (bound (process_events (process filename username w envs))) \<subseteq>
           set (map LocalAddr (concat (map Endpoints (Hosts envConfig)))) \<union> {'':0''}"
    using bound_subset [of "process_events (process filename username w envs)"]
    unfolding l by simp
  have h: "'':0'' \<in> set (bound (process_events (process filename username w envs)))"
    if "http_ListenAndServe w '':0'' \<noteq> HttpBindError"
    using that by (simp add: process_events_def process_def Let_def bound_append m)
  have e: "snd (fst (process filename username w envs)) =
           (if http_ListenAndServe w '':0'' = HttpServesForever then Serving else Fatal)
       \<and> last (fst (fst (process filename username w envs))) =
           HttpListenAndServe '':0'' (http_ListenAndServe w '':0'')"
    by (simp add: process_def Let_def m)
  have sp': "map snd (spawned (fst (fst (process filename username w envs)))) =
           concat (map Endpoints (Hosts envConfig))"
    using sp by (simp add: process_def Let_def)
  show ?thesis using l b h e sp' by blast
qed

theorem listeners_of_process_witness:
  "listen_calls (process_events (process ''hosts.json'' ''alice'' example_world (\<lambda>i. example_env))) =
     [''127.0.0.1:9001'', ''127.0.0.1:9002'', '':0'']
   \<and> snd (fst (process ''hosts.json'' ''alice'' example_world (\<lambda>i. example_env))) = Serving
   \<and> '':0'' \<in> set (bound (process_events
         (process ''hosts.json'' ''alice'' example_world (\<lambda>i. example_env))))"
  using listeners_of_process [of "''hosts.json''" "''alice''" example_world example_config
      "\<lambda>i. example_env"]
  by (simp add: example_world_def example_config_def example_endpoint_def example_endpoint2_def
        less_Suc_eq)

end
